theory Spec2Isabelle
  imports Main
begin

section \<open>The syntax tree built by the parser\<close>

text \<open>
  The parser of \<^verbatim>\<open>src/parser/parse_new.ts\<close> builds its tree out of mutable objects
  that it reaches through several references at once (\<^verbatim>\<open>this.parent\<close>,
  \<^verbatim>\<open>this.prev\<close> and the child arrays).  The objects therefore live in an explicit
  store, a list of nodes indexed by allocation order, and every reference is an address
  into it.
\<close>

type_synonym addr = nat

datatype quantifier_kind = QuestionMark | Star | Plus | Custom

text \<open>The numbers a quantifier holds: an integer that a double represents, or
  \<^verbatim>\<open>Infinity\<close>.  Both bounds are JavaScript numbers, and \<^verbatim>\<open>parseInt\<close> can yield
  \<^verbatim>\<open>Infinity\<close> for either.\<close>

datatype bound = Finite int | Infinity

record quantifier =
  kind :: quantifier_kind
  qmin :: bound
  qmax :: bound
  greedy :: bool

datatype group = NonCapturing | NamedCapturing string | Capturing string

text \<open>
  Modelled from the spec: the declarations of \<^verbatim>\<open>./ast\<close> are not part of the sources.
  The node variants are the four that the parser dispatches on (\<^verbatim>\<open>"character"\<close>,
  \<^verbatim>\<open>"group"\<close>, \<^verbatim>\<open>"choice"\<close>, \<^verbatim>\<open>"lookAroundAssertion"\<close>), each with the fields
  that the parser reads or writes: a group node has the fields that \<^verbatim>\<open>onGroup\<close> writes
  (id, children, the group kind with its name, quantifier), a choice its branches, a
  lookaround assertion its children, a character its quantifier.  The quantifier, group
  and flag objects are the object literals of \<^verbatim>\<open>parse_new.ts\<close>.
\<close>

datatype node =
    CharacterNode "quantifier option"
  | GroupNode string "addr list" group "quantifier option"
  | ChoiceNode "addr list list"
  | LookAroundAssertionNode "addr list"

datatype flag_kind = hasIndices | global | ignoreCase | multiline | dotAll | unicode | sticky

datatype flag = Flag "flag_kind option"

record regex_ast =
  body :: "addr list"
  flags :: "flag list"

datatype ref = RegexRef | NodeRef addr

text \<open>An uncaught JavaScript exception; the only one the parser can raise by itself is the
  \<^verbatim>\<open>TypeError\<close> of reading a property of \<^verbatim>\<open>undefined\<close>.\<close>

datatype exn = TypeError

text \<open>What \<^verbatim>\<open>parse\<close> returns: the error object, or the root object together with the
  store its addresses point into.\<close>

datatype parse_result = RegexError string | Regex regex_ast "node list"

section \<open>The parser state\<close>

record parser =
  regex :: string
  message :: string
  index :: nat
  ast :: regex_ast
  parent :: "ref option"
  prev :: "addr option"
  groupIndex :: nat
  flagSet :: "char list"
  heap :: "node list"
  nanoidCalls :: nat

text \<open>\<^verbatim>\<open>flagDict\<close>, a dictionary from flag letters to flag names.\<close>

definition flagDict :: "char \<rightharpoonup> flag_kind" where
  "flagDict =
     [CHR ''d'' \<mapsto> hasIndices, CHR ''g'' \<mapsto> global, CHR ''i'' \<mapsto> ignoreCase,
      CHR ''m'' \<mapsto> multiline, CHR ''s'' \<mapsto> dotAll, CHR ''u'' \<mapsto> unicode,
      CHR ''y'' \<mapsto> sticky]"

subsection \<open>Strings\<close>

text \<open>
  A JavaScript string is modelled as a \<^typ>\<open>string\<close>, one \<^typ>\<open>char\<close> per code unit, so
  the model covers the code units below 256.  Among them \<^verbatim>\<open>String.prototype.trim\<close>
  removes tab, line feed, vertical tab, form feed, carriage return, space and the
  no-break space; the line terminators, which \<^verbatim>\<open>.\<close> does not match, are line feed and
  carriage return.
\<close>

definition isWhiteSpace :: "char \<Rightarrow> bool" where
  "isWhiteSpace c \<longleftrightarrow>
     c \<in> set [CHR 0x09, CHR 0x0A, CHR 0x0B, CHR 0x0C, CHR 0x0D, CHR 0x20, CHR 0xA0]"

definition trim :: "string \<Rightarrow> string" where
  "trim s = rev (dropWhile isWhiteSpace (rev (dropWhile isWhiteSpace s)))"

definition isLineTerminator :: "char \<Rightarrow> bool" where
  "isLineTerminator c \<longleftrightarrow> c \<in> set [CHR 0x0A, CHR 0x0D]"

definition isDigit :: "char \<Rightarrow> bool" where
  "isDigit c \<longleftrightarrow> c \<in> set ''0123456789''"

text \<open>\<^verbatim>\<open>s.slice(a, b)\<close> and \<^verbatim>\<open>s.slice(a)\<close> for indices that are not negative.\<close>

definition slice :: "string \<Rightarrow> nat \<Rightarrow> nat \<Rightarrow> string" where
  "slice s a b = take (b - a) (drop a s)"

definition sliceFrom :: "string \<Rightarrow> nat \<Rightarrow> string" where
  "sliceFrom s a = drop a s"

text \<open>
  \<^verbatim>\<open>parseInt\<close> on a run of decimal digits.  The result is a JavaScript number, a
  double: \<open>digitsValue\<close> is the integer that the digits write, and \<open>toNumber\<close> is the
  double nearest to it.  Below \<open>2 ^ 53\<close> every natural number is a double.  From there
  on the value keeps its 53 leading bits, rounded to the nearest with ties to the even
  one, and a rounded value of \<open>2 ^ 1024\<close> or more is \<^verbatim>\<open>Infinity\<close>.  (The standard
  lets an engine replace the digits after the twentieth by zeros before it rounds; the
  model takes the correctly rounded value.)
\<close>

definition digitVal :: "char \<Rightarrow> int" where
  "digitVal c = int (length (takeWhile (\<lambda>d. d \<noteq> c) ''0123456789''))"

definition digitsValue :: "string \<Rightarrow> int" where
  "digitsValue s = foldl (\<lambda>n c. 10 * n + digitVal c) 0 s"

function bitLength :: "int \<Rightarrow> nat" where
  "bitLength n = (if n \<le> 0 then 0 else Suc (bitLength (n div 2)))"
  by pat_completeness auto
termination
  by (relation "measure nat") auto

declare bitLength.simps [simp del]

definition toNumber :: "int \<Rightarrow> bound" where
  "toNumber n =
     (if n < 2 ^ 53 then Finite n
      else
        let e = bitLength n - 53;
            q = n div 2 ^ e;
            r = n mod 2 ^ e;
            m = (if 2 ^ e < 2 * r \<or> (2 * r = 2 ^ e \<and> odd q) then q + 1 else q)
        in if 2 ^ 1024 \<le> m * 2 ^ e then Infinity else Finite (m * 2 ^ e))"

definition parseInt :: "string \<Rightarrow> bound" where
  "parseInt s = toNumber (digitsValue s)"

text \<open>\<^verbatim>\<open>n + ""\<close>: the decimal numeral of a natural number.\<close>

fun showNat :: "nat \<Rightarrow> string" where
  "showNat n =
     (if n < 10 then [''0123456789'' ! n]
      else showNat (n div 10) @ [''0123456789'' ! (n mod 10)])"

declare showNat.simps [simp del]

text \<open>A JavaScript \<^verbatim>\<open>Set\<close> keeps its elements in the order of their first insertion.\<close>

definition setAdd :: "'a \<Rightarrow> 'a list \<Rightarrow> 'a list" where
  "setAdd x xs = (if x \<in> set xs then xs else xs @ [x])"

text \<open>The truth value of a \<^verbatim>\<open>string | false\<close>: \<^verbatim>\<open>false\<close> and the empty string are
  falsy.\<close>

definition truthy :: "string option \<Rightarrow> bool" where
  "truthy r = (case r of None \<Rightarrow> False | Some s \<Rightarrow> s \<noteq> [])"

section \<open>Cursor and lookahead\<close>

definition advance :: "nat \<Rightarrow> parser \<Rightarrow> bool \<times> parser" where
  "advance step p =
     (if Suc (index p) = length (regex p) then (False, p)
      else (True, p\<lparr>index := index p + step\<rparr>))"

definition cur :: "nat \<Rightarrow> parser \<Rightarrow> char option" where
  "cur adv p =
     (let i = index p + adv in if i < length (regex p) then Some (regex p ! i) else None)"

text \<open>
  \<^verbatim>\<open>eat\<close> compiles its arguments into a regular expression.  The start patterns the
  parser passes are \<^verbatim>\<open>\d+\<close> and the literal texts \<^verbatim>\<open>,\<close>, \<^verbatim>\<open>\?:\<close> and \<^verbatim>\<open>\?<\<close>; the
  only end pattern is the literal text \<^verbatim>\<open>>\<close>.  \<open>matchStart\<close> is the match of
  \<^verbatim>\<open>^start\<close>; \<open>matchBetween\<close> is the first group of \<^verbatim>\<open>^start(.*)end\<close>, where the greedy
  \<^verbatim>\<open>.*\<close> runs over everything up to a line terminator and backtracks to the last place
  where the end text follows.
\<close>

datatype pat = Digits | Lit string

fun matchStart :: "pat \<Rightarrow> string \<Rightarrow> string option" where
  "matchStart Digits s = (let m = takeWhile isDigit s in if m = [] then None else Some m)"
| "matchStart (Lit l) s = (if take (length l) s = l then Some l else None)"

fun lastEnd :: "string \<Rightarrow> string \<Rightarrow> nat \<Rightarrow> nat option" where
  "lastEnd e rest 0 = (if take (length e) rest = e then Some 0 else None)"
| "lastEnd e rest (Suc k) =
     (if take (length e) (drop (Suc k) rest) = e then Some (Suc k) else lastEnd e rest k)"

definition matchBetween :: "pat \<Rightarrow> string \<Rightarrow> string \<Rightarrow> string option" where
  "matchBetween startPoint endPoint s =
     (case matchStart startPoint s of
        None \<Rightarrow> None
      | Some m \<Rightarrow>
          (let rest = drop (length m) s;
               line = takeWhile (\<lambda>c. \<not> isLineTerminator c) rest
           in map_option (\<lambda>k. take k rest) (lastEnd endPoint rest (length line))))"

definition eat :: "pat \<Rightarrow> string \<Rightarrow> nat \<Rightarrow> parser \<Rightarrow> string option" where
  "eat startPoint endPoint adv p =
     (if endPoint = [] then matchStart startPoint (sliceFrom (regex p) (index p + adv))
      else matchBetween startPoint endPoint (sliceFrom (regex p) (index p + adv)))"

section \<open>Validation\<close>

text \<open>
  \<^verbatim>\<open>new RegExp(body, flags)\<close> is the engine's own syntax check.  It is a parameter of
  the model: \<open>orc body flags\<close> is \<open>None\<close> when the constructor returns and
  \<open>Some msg\<close> when it throws an error with message \<open>msg\<close>, which the
  \<^verbatim>\<open>catch\<close> of \<^verbatim>\<open>validate\<close> stores.  Nothing else in the \<^verbatim>\<open>try\<close> block throws.
\<close>

type_synonym legality_oracle = "string \<Rightarrow> string \<Rightarrow> string option"

text \<open>\<^verbatim>\<open>s.indexOf(c)\<close>, which is \<open>-1\<close> when \<open>c\<close> does not occur.\<close>

definition indexOf :: "string \<Rightarrow> char \<Rightarrow> int" where
  "indexOf s c = (if c \<in> set s then int (length (takeWhile (\<lambda>d. d \<noteq> c) s)) else - 1)"

text \<open>The first loop of \<^verbatim>\<open>validate\<close>: \<open>findEnd cs i\<close> scans the characters \<open>cs\<close> that
  start at index \<open>i\<close> and yields the index of the first \<^verbatim>\<open>/\<close>, or \<open>-1\<close>.\<close>

fun findEnd :: "string \<Rightarrow> nat \<Rightarrow> int" where
  "findEnd [] i = - 1"
| "findEnd (c # cs) i = (if c = CHR ''/'' then int i else findEnd cs (Suc i))"

text \<open>The second loop: each character after the closing delimiter is tested against
  \<^verbatim>\<open>/[gimsuy]/\<close> and added to the flag set; the loop stops at the first one that fails.\<close>

fun flagLoop :: "string \<Rightarrow> char list \<Rightarrow> bool \<times> char list" where
  "flagLoop [] fs = (True, fs)"
| "flagLoop (c # cs) fs =
     (if c \<notin> set ''gimsuy'' then (False, fs) else flagLoop cs (setAdd c fs))"

definition validate :: "legality_oracle \<Rightarrow> parser \<Rightarrow> bool \<times> parser" where
  "validate orc p =
     (let start = indexOf (regex p) CHR ''/'' in
      if start \<noteq> 0 then (False, p\<lparr>message := ''Invalid regular expression''\<rparr>)
      else
        let end = findEnd (drop 1 (regex p)) 1 in
        if end = - 1 then (False, p\<lparr>message := ''Invalid regular expression''\<rparr>)
        else
          let (ok, fs) = flagLoop (drop (nat end + 1) (regex p)) (flagSet p);
              p1 = p\<lparr>flagSet := fs\<rparr>
          in
          if \<not> ok then (False, p1\<lparr>message := ''Invalid regular expression flags''\<rparr>)
          else
            (case orc (slice (regex p) 1 (nat end)) (sliceFrom (regex p) (nat end + 1)) of
               Some msg \<Rightarrow> (False, p1\<lparr>message := msg\<rparr>)
             | None \<Rightarrow> (True, p1)))"

section \<open>Quantifiers\<close>

text \<open>The object a reference points to; every reference the parser holds was obtained
  from an allocation, so the lookup fails for no reference that the parser creates.\<close>

definition deref :: "node list \<Rightarrow> addr \<Rightarrow> node option" where
  "deref h a = (if a < length h then Some (h ! a) else None)"

text \<open>The \<^verbatim>\<open>switch\<close> of \<^verbatim>\<open>consumeQuantifier\<close>: the quantifier read at the cursor, if
  any, and the state after the cursor has moved.\<close>

definition readQuantifier :: "parser \<Rightarrow> quantifier option \<times> parser" where
  "readQuantifier p =
     (if cur 0 p = Some CHR ''?'' then
        (Some \<lparr>kind = QuestionMark, qmin = Finite 0, qmax = Finite 1, greedy = True\<rparr>,
         snd (advance 1 p))
      else if cur 0 p = Some CHR ''*'' then
        (Some \<lparr>kind = Star, qmin = Finite 0, qmax = Infinity, greedy = True\<rparr>,
         snd (advance 1 p))
      else if cur 0 p = Some CHR ''+'' then
        (Some \<lparr>kind = Plus, qmin = Finite 1, qmax = Infinity, greedy = True\<rparr>,
         snd (advance 1 p))
      else if cur 0 p = Some CHR ''{'' then
        (case eat Digits [] 1 p of
           None \<Rightarrow> (None, p)
         | Some minStr \<Rightarrow>
             if cur (length minStr + 1) p = Some CHR ''}'' then
               (Some \<lparr>kind = Custom, qmin = parseInt minStr, qmax = parseInt minStr,
                      greedy = True\<rparr>,
                snd (advance (length minStr + 2) p))
             else if truthy (eat (Lit '','') [] (length minStr + 1) p)
                     \<and> cur (length minStr + 2) p = Some CHR ''}'' then
               (Some \<lparr>kind = Custom, qmin = parseInt minStr, qmax = Infinity, greedy = True\<rparr>,
                snd (advance (length minStr + 3) p))
             else
               (case eat Digits [] 1 p of
                  None \<Rightarrow> (None, p)
                | Some maxStr \<Rightarrow>
                    if cur (length minStr + 1) p = Some CHR ''}'' then
                      (Some \<lparr>kind = Custom, qmin = parseInt minStr,
                             qmax = parseInt maxStr, greedy = True\<rparr>,
                       snd (advance (length minStr + length maxStr + 3) p))
                    else (None, p)))
      else (None, p))"

text \<open>\<^verbatim>\<open>this.prev.quantifier = quantifier\<close>, guarded by the type of \<^verbatim>\<open>this.prev\<close>.
  Reading \<^verbatim>\<open>this.prev.type\<close> while \<^verbatim>\<open>this.prev\<close> is still \<^verbatim>\<open>undefined\<close> throws.\<close>

definition attachQuantifier :: "quantifier \<Rightarrow> parser \<Rightarrow> exn + parser" where
  "attachQuantifier q p =
     (case prev p of
        None \<Rightarrow> Inl TypeError
      | Some a \<Rightarrow>
          (case deref (heap p) a of
             None \<Rightarrow> Inl TypeError
           | Some (CharacterNode _) \<Rightarrow> Inr (p\<lparr>heap := (heap p)[a := CharacterNode (Some q)]\<rparr>)
           | Some (GroupNode i ch g _) \<Rightarrow>
               Inr (p\<lparr>heap := (heap p)[a := GroupNode i ch g (Some q)]\<rparr>)
           | Some _ \<Rightarrow> Inr p))"

definition consumeQuantifier :: "parser \<Rightarrow> exn + (bool \<times> parser)" where
  "consumeQuantifier p =
     (let (quantifier, p1) = readQuantifier p;
          (quantifier, p2) =
            (case quantifier of
               None \<Rightarrow> (None, p1)
             | Some q \<Rightarrow>
                 if cur 0 p1 = Some CHR ''?'' then (Some (q\<lparr>greedy := False\<rparr>), snd (advance 1 p1))
                 else (Some q, p1))
      in case quantifier of
           None \<Rightarrow> Inr (False, p2)
         | Some q \<Rightarrow>
             (case attachQuantifier q p2 of Inl e \<Rightarrow> Inl e | Inr p3 \<Rightarrow> Inr (True, p3)))"

section \<open>Tree assembly\<close>

definition appendChild :: "addr \<Rightarrow> parser \<Rightarrow> exn + parser" where
  "appendChild n p =
     (case parent p of
        None \<Rightarrow> Inl TypeError
      | Some RegexRef \<Rightarrow> Inr (p\<lparr>ast := (ast p)\<lparr>body := body (ast p) @ [n]\<rparr>\<rparr>)
      | Some (NodeRef r) \<Rightarrow>
          (case deref (heap p) r of
             None \<Rightarrow> Inl TypeError
           | Some (GroupNode i ch g q) \<Rightarrow>
               Inr (p\<lparr>heap := (heap p)[r := GroupNode i (ch @ [n]) g q]\<rparr>)
           | Some (LookAroundAssertionNode ch) \<Rightarrow>
               Inr (p\<lparr>heap := (heap p)[r := LookAroundAssertionNode (ch @ [n])]\<rparr>)
           | Some (ChoiceNode branches) \<Rightarrow>
               if branches = [] then Inl TypeError
               else Inr (p\<lparr>heap := (heap p)[r := ChoiceNode
                      (branches[length branches - 1 := last branches @ [n]])]\<rparr>)
           | Some (CharacterNode _) \<Rightarrow> Inr p))"

section \<open>The driver\<close>

text \<open>
  \<^verbatim>\<open>consume\<close> is a \<^verbatim>\<open>do ... while (this.advance())\<close> loop that calls \<^verbatim>\<open>onGroup\<close>,
  which calls \<^verbatim>\<open>consume\<close> again.  Nothing in the code bounds the loop (once the index is
  beyond the last character \<^verbatim>\<open>advance\<close> succeeds forever), so the two functions take
  fuel: one unit for every iteration and every call.  The result \<open>None\<close> says that the
  fuel ran out; \<open>Some (Inl e)\<close> that the exception \<open>e\<close> was thrown.  More fuel never
  changes a result (\<open>parse_more_fuel\<close>), and on the states that \<open>parse\<close> reaches twice
  the length of the text is enough (\<open>parse_total\<close>).
  \<open>nanoid\<close> is the id generator, the \<open>k\<close>-th call of which yields \<open>nanoid k\<close>.
\<close>

fun consume :: "nat \<Rightarrow> (nat \<Rightarrow> string) \<Rightarrow> char \<Rightarrow> parser \<Rightarrow> (exn + parser) option"
  and onGroup :: "nat \<Rightarrow> (nat \<Rightarrow> string) \<Rightarrow> parser \<Rightarrow> (exn + parser) option" where
  "consume 0 nanoid endPoint p = None"
| "consume (Suc n) nanoid endPoint p =
     (if cur 0 p = Some endPoint then Some (Inr p)
      else
        (case
           (if cur 0 p \<in> {Some CHR ''{'', Some CHR ''?'', Some CHR ''*'', Some CHR ''+''} then
              (case consumeQuantifier p of
                 Inl e \<Rightarrow> Some (Inl e)
               | Inr (_, p1) \<Rightarrow> Some (Inr p1))
            else if cur 0 p = Some CHR ''('' then onGroup n nanoid p
            else Some (Inr p))
         of
           None \<Rightarrow> None
         | Some (Inl e) \<Rightarrow> Some (Inl e)
         | Some (Inr p1) \<Rightarrow>
             (case advance 1 p1 of
                (True, p2) \<Rightarrow> consume n nanoid endPoint p2
              | (False, p2) \<Rightarrow> Some (Inr p2))))"
| "onGroup 0 nanoid p = None"
| "onGroup (Suc n) nanoid p =
     (let p1 = snd (advance 1 p);
          (group, p2) =
            (if truthy (eat (Lit ''?:'') [] 0 p1) then (Some NonCapturing, snd (advance 2 p1))
             else
               (case eat (Lit ''?<'') ''>'' 0 p1 of
                  None \<Rightarrow> (None, p1)
                | Some name \<Rightarrow>
                    if name \<noteq> [] then
                      (Some (NamedCapturing name), snd (advance (length name + 3) p1))
                    else (None, p1)));
          (group, p3) =
            (case group of
               None \<Rightarrow>
                 (Capturing (showNat (groupIndex p2)), p2\<lparr>groupIndex := groupIndex p2 + 1\<rparr>)
             | Some g \<Rightarrow> (g, p2));
          groupNode = length (heap p3);
          p4 = p3\<lparr>heap := heap p3 @ [GroupNode (nanoid (nanoidCalls p3)) [] group None],
                  nanoidCalls := nanoidCalls p3 + 1\<rparr>
      in case appendChild groupNode p4 of
           Inl e \<Rightarrow> Some (Inl e)
         | Inr p5 \<Rightarrow>
             (case consume n nanoid CHR '')'' p5 of
                None \<Rightarrow> None
              | Some (Inl e) \<Rightarrow> Some (Inl e)
              | Some (Inr p6) \<Rightarrow> Some (Inr (p6\<lparr>prev := Some groupNode\<rparr>))))"

definition onRegexBody :: "nat \<Rightarrow> (nat \<Rightarrow> string) \<Rightarrow> parser \<Rightarrow> (exn + parser) option" where
  "onRegexBody fuel nanoid p = consume fuel nanoid CHR ''/'' (snd (advance 1 p))"

definition onFlags :: "parser \<Rightarrow> parser" where
  "onFlags p =
     foldl (\<lambda>q f. q\<lparr>ast := (ast q)\<lparr>flags := flags (ast q) @ [Flag (flagDict f)]\<rparr>\<rparr>)
       p (flagSet p)"

definition onRegex :: "nat \<Rightarrow> (nat \<Rightarrow> string) \<Rightarrow> parser \<Rightarrow> (exn + parser) option" where
  "onRegex fuel nanoid p =
     (case onRegexBody fuel nanoid (p\<lparr>parent := Some RegexRef\<rparr>) of
        None \<Rightarrow> None
      | Some (Inl e) \<Rightarrow> Some (Inl e)
      | Some (Inr p1) \<Rightarrow> Some (Inr (onFlags p1)))"

text \<open>The constructor: the trimmed text and the initial values of the fields.\<close>

definition Parser :: "string \<Rightarrow> parser" where
  "Parser s =
     \<lparr>regex = trim s, message = [], index = 0, ast = \<lparr>body = [], flags = []\<rparr>,
      parent = None, prev = None, groupIndex = 1, flagSet = [], heap = [],
      nanoidCalls = 0\<rparr>"

definition parserParse :: "nat \<Rightarrow> legality_oracle \<Rightarrow> (nat \<Rightarrow> string) \<Rightarrow> parser \<Rightarrow> (exn + parse_result) option"
  where
  "parserParse fuel orc nanoid p =
     (case validate orc p of
        (False, p1) \<Rightarrow> Some (Inr (RegexError (message p1)))
      | (True, p1) \<Rightarrow>
          (case onRegex fuel nanoid p1 of
             None \<Rightarrow> None
           | Some (Inl e) \<Rightarrow> Some (Inl e)
           | Some (Inr p2) \<Rightarrow> Some (Inr (Regex (ast p2) (heap p2)))))"

definition parse :: "nat \<Rightarrow> legality_oracle \<Rightarrow> (nat \<Rightarrow> string) \<Rightarrow> string \<Rightarrow> (exn + parse_result) option"
  where
  "parse fuel orc nanoid s = parserParse fuel orc nanoid (Parser s)"

declare consume.simps [simp del] onGroup.simps [simp del]

section \<open>Notions used in the statements\<close>

text \<open>The capture names of the group nodes of a store, in allocation order: \<^verbatim>\<open>onGroup\<close>
  allocates a node when the cursor, which only moves forward, stands on its \<^verbatim>\<open>(\<close>.\<close>

definition captureOf :: "node \<Rightarrow> string list" where
  "captureOf n = (case n of GroupNode i ch (Capturing name) q \<Rightarrow> [name] | _ \<Rightarrow> [])"

definition capturingNames :: "node list \<Rightarrow> string list" where
  "capturingNames h = concat (map captureOf h)"

text \<open>The numbering invariant of the driver, and what one run of it leaves unchanged.\<close>

definition numbered :: "parser \<Rightarrow> bool" where
  "numbered p \<longleftrightarrow> 1 \<le> groupIndex p \<and> capturingNames (heap p) = map showNat [1 ..< groupIndex p]"

definition keeps :: "parser \<Rightarrow> parser \<Rightarrow> bool" where
  "keeps p q \<longleftrightarrow>
     flagSet q = flagSet p \<and> flags (ast q) = flags (ast p) \<and> (numbered p \<longrightarrow> numbered q)"




text \<open>The text between the first two \<^verbatim>\<open>/\<close> of a literal, the text after the second,
  and the literals that lack one of the two delimiters.\<close>

definition bodyText :: "string \<Rightarrow> string" where
  "bodyText t = takeWhile (\<lambda>c. c \<noteq> CHR ''/'') (drop 1 t)"

definition flagLetters :: "string \<Rightarrow> string" where
  "flagLetters t = drop 1 (dropWhile (\<lambda>c. c \<noteq> CHR ''/'') (drop 1 t))"

definition missingDelimiter :: "string \<Rightarrow> bool" where
  "missingDelimiter t = (case t of [] \<Rightarrow> True | c # cs \<Rightarrow> c \<noteq> CHR ''/'' \<or> CHR ''/'' \<notin> set cs)"



section \<open>The driver preserves the numbering and the flags\<close>

lemma keeps_refl: "keeps p p"
  by (simp add: keeps_def)

lemma keeps_trans: "keeps p q \<Longrightarrow> keeps q r \<Longrightarrow> keeps p r"
  by (simp add: keeps_def)

lemma keeps_index: "keeps p (p\<lparr>index := i\<rparr>)"
  by (simp add: keeps_def numbered_def)

lemma keeps_prev: "keeps p (p\<lparr>prev := a\<rparr>)"
  by (simp add: keeps_def numbered_def)

lemma advance_index: "\<exists>i. snd (advance k p) = p\<lparr>index := i\<rparr>"
proof (cases "Suc (index p) = length (regex p)")
  case True
  then have "snd (advance k p) = p\<lparr>index := index p\<rparr>" by (simp add: advance_def)
  then show ?thesis by blast
next
  case False
  then show ?thesis by (auto simp: advance_def)
qed

lemma keeps_advance: "keeps p (snd (advance k p))"
  using advance_index [of k p] keeps_index by (metis)

lemma readQuantifier_index: "\<exists>i. snd (readQuantifier p) = p\<lparr>index := i\<rparr>"
proof -
  have self: "\<exists>i. p = p\<lparr>index := i\<rparr>" by (rule exI [of _ "index p"]) simp
  show ?thesis
    using self advance_index [of _ p]
    by (auto simp: readQuantifier_def split: option.splits)
qed

lemma capturingNames_update:
  assumes "a < length h" "captureOf n = captureOf (h ! a)"
  shows "capturingNames (h[a := n]) = capturingNames h"
proof -
  have "map captureOf (h[a := n]) = (map captureOf h)[a := map captureOf h ! a]"
    using assms by (simp add: map_update)
  then show ?thesis by (simp add: capturingNames_def)
qed

lemma keeps_attachQuantifier:
  assumes "attachQuantifier q p = Inr p'"
  shows "keeps p p'"
  using assms
  by (auto simp: attachQuantifier_def keeps_def numbered_def deref_def captureOf_def
      capturingNames_update split: option.splits node.splits if_splits)

lemma keeps_consumeQuantifier:
  assumes "consumeQuantifier p = Inr (b, p')"
  shows "keeps p p'"
proof -
  obtain qo p1 where rq: "readQuantifier p = (qo, p1)" by (cases "readQuantifier p")
  have k1: "keeps p p1" using readQuantifier_index [of p] rq keeps_index by (metis snd_conv)
  show ?thesis
  proof (cases qo)
    case None
    with assms rq have "p' = p1" by (simp add: consumeQuantifier_def)
    with k1 show ?thesis by simp
  next
    case (Some q)
    define q2 where "q2 = (if cur 0 p1 = Some CHR ''?'' then q\<lparr>greedy := False\<rparr> else q)"
    define p2 where "p2 = (if cur 0 p1 = Some CHR ''?'' then snd (advance 1 p1) else p1)"
    have k2: "keeps p1 p2" by (simp add: p2_def keeps_advance keeps_refl)
    from assms rq Some have "attachQuantifier q2 p2 = Inr p'"
      by (auto simp: consumeQuantifier_def q2_def p2_def split: if_splits sum.splits)
    then have "keeps p2 p'" by (rule keeps_attachQuantifier)
    with k1 k2 show ?thesis by (blast intro: keeps_trans)
  qed
qed


lemma keeps_appendChild:
  assumes "appendChild a p = Inr p'"
  shows "keeps p p'"
  using assms
  by (auto simp: appendChild_def keeps_def numbered_def deref_def captureOf_def
      capturingNames_update split: option.splits node.splits if_splits ref.splits)

lemma keeps_allocate_uncounted:
  assumes "g = NonCapturing \<or> (\<exists>name. g = NamedCapturing name)"
  shows "keeps p (p\<lparr>heap := heap p @ [GroupNode i [] g None], nanoidCalls := c\<rparr>)"
  using assms by (auto simp: keeps_def numbered_def capturingNames_def captureOf_def)

lemma keeps_allocate_capturing:
  "keeps p (p\<lparr>groupIndex := groupIndex p + 1,
              heap := heap p @ [GroupNode i [] (Capturing (showNat (groupIndex p))) None],
              nanoidCalls := c\<rparr>)"
  by (simp add: keeps_def numbered_def capturingNames_def captureOf_def)

lemma keeps_consume_onGroup:
  "(\<forall>e p q. consume n nanoid e p = Some (Inr q) \<longrightarrow> keeps p q) \<and>
   (\<forall>p q. onGroup n nanoid p = Some (Inr q) \<longrightarrow> keeps p q)"
proof (induction n)
  case 0
  show ?case by (simp add: consume.simps(1) onGroup.simps(1))
next
  case (Suc n)
  have c: "\<And>e p q. consume n nanoid e p = Some (Inr q) \<Longrightarrow> keeps p q"
    and g: "\<And>p q. onGroup n nanoid p = Some (Inr q) \<Longrightarrow> keeps p q"
    using Suc.IH by blast+
  have "keeps p q" if h: "consume (Suc n) nanoid e p = Some (Inr q)" for e p q
  proof (cases "cur 0 p = Some e")
    case True
    with h show ?thesis by (simp add: consume.simps(2) keeps_refl)
  next
    case False
    define r where "r =
      (if cur 0 p \<in> {Some CHR ''{'', Some CHR ''?'', Some CHR ''*'', Some CHR ''+''} then
              (case consumeQuantifier p of
                 Inl e \<Rightarrow> Some (Inl e)
               | Inr (_, p1) \<Rightarrow> Some (Inr p1))
            else if cur 0 p = Some CHR ''('' then onGroup n nanoid p
            else Some (Inr p))"
    from h False obtain p1 where r1: "r = Some (Inr p1)"
      and rest: "(case advance 1 p1 of
                (True, p2) \<Rightarrow> consume n nanoid e p2
              | (False, p2) \<Rightarrow> Some (Inr p2)) = Some (Inr q)"
      unfolding consume.simps(2) r_def [symmetric]
      by (auto split: option.splits sum.splits)
    have k1: "keeps p p1"
      using r1 unfolding r_def
      by (auto split: if_splits sum.splits prod.splits intro: keeps_refl g keeps_consumeQuantifier)
    have k2: "keeps p1 (snd (advance 1 p1))" by (rule keeps_advance)
    have k3: "keeps (snd (advance 1 p1)) q"
      using rest by (cases "advance 1 p1") (auto split: bool.splits intro: keeps_refl c)
    from k1 k2 k3 show ?thesis by (blast intro: keeps_trans)
  qed
  moreover have "keeps p q" if h: "onGroup (Suc n) nanoid p = Some (Inr q)" for p q
  proof -
    define p1 where "p1 = snd (advance 1 p)"
    define gp where "gp =
            (if truthy (eat (Lit ''?:'') [] 0 p1) then (Some NonCapturing, snd (advance 2 p1))
             else
               (case eat (Lit ''?<'') ''>'' 0 p1 of
                  None \<Rightarrow> (None, p1)
                | Some name \<Rightarrow>
                    if name \<noteq> [] then
                      (Some (NamedCapturing name), snd (advance (length name + 3) p1))
                    else (None, p1)))"
    define p2 where "p2 = snd gp"
    define p4 where "p4 = (case fst gp of
               None \<Rightarrow> p2\<lparr>groupIndex := groupIndex p2 + 1,
                  heap := heap p2 @ [GroupNode (nanoid (nanoidCalls p2)) []
                     (Capturing (showNat (groupIndex p2))) None],
                  nanoidCalls := nanoidCalls p2 + 1\<rparr>
             | Some g \<Rightarrow> p2\<lparr>heap := heap p2 @ [GroupNode (nanoid (nanoidCalls p2)) [] g None],
                  nanoidCalls := nanoidCalls p2 + 1\<rparr>)"
    have k1: "keeps p p1" unfolding p1_def by (rule keeps_advance)
    have k2: "keeps p1 p2"
      unfolding p2_def gp_def
      by (auto split: option.splits intro: keeps_refl keeps_advance)
    have uncounted: "g = NonCapturing \<or> (\<exists>name. g = NamedCapturing name)" if "fst gp = Some g" for g
      using that unfolding gp_def by (auto split: if_splits option.splits)
    have k4: "keeps p2 p4"
    proof (cases "fst gp")
      case None
      then show ?thesis unfolding p4_def by (simp only: option.case keeps_allocate_capturing)
    next
      case (Some g)
      then show ?thesis unfolding p4_def using uncounted [OF Some]
        by (simp only: option.case keeps_allocate_uncounted)
    qed
    from h obtain p5 p6 where a5: "appendChild (length (heap p2)) p4 = Inr p5"
      and c6: "consume n nanoid CHR '')'' p5 = Some (Inr p6)"
      and q: "q = p6\<lparr>prev := Some (length (heap p2))\<rparr>"
      unfolding onGroup.simps(2) p4_def p2_def gp_def p1_def
      by (auto simp: Let_def split: prod.splits option.splits sum.splits if_splits)
    have "keeps p4 p5" using a5 by (rule keeps_appendChild)
    moreover have "keeps p5 p6" using c6 by (rule c)
    moreover have "keeps p6 q" unfolding q by (rule keeps_prev)
    ultimately show ?thesis using k1 k2 k4 by (blast intro: keeps_trans)
  qed
  ultimately show ?case by blast
qed

section \<open>More fuel does not change a result\<close>

lemma fuel_step:
  "(\<forall>e p r. consume n nanoid e p = Some r \<longrightarrow> consume (Suc n) nanoid e p = Some r) \<and>
   (\<forall>p r. onGroup n nanoid p = Some r \<longrightarrow> onGroup (Suc n) nanoid p = Some r)"
proof (induction n)
  case 0
  show ?case by (simp add: consume.simps(1) onGroup.simps(1))
next
  case (Suc n)
  have c: "\<And>e p r. consume n nanoid e p = Some r \<Longrightarrow> consume (Suc n) nanoid e p = Some r"
    and g: "\<And>p r. onGroup n nanoid p = Some r \<Longrightarrow> onGroup (Suc n) nanoid p = Some r"
    using Suc.IH by blast+
  have "consume (Suc (Suc n)) nanoid e p = Some r" if h: "consume (Suc n) nanoid e p = Some r" for e p r
    using h
    apply (subst consume.simps(2))
    apply (subst (asm) consume.simps(2))
    apply (auto split: if_splits option.splits sum.splits prod.splits bool.splits dest!: c g)
    done
  moreover have "onGroup (Suc (Suc n)) nanoid p = Some r" if h: "onGroup (Suc n) nanoid p = Some r" for p r
    using h
    apply (subst onGroup.simps(2))
    apply (subst (asm) onGroup.simps(2))
    apply (auto simp: Let_def split: if_splits option.splits sum.splits prod.splits bool.splits dest!: c g)
    done
  ultimately show ?case by blast
qed

lemma consume_more_fuel:
  "consume n nanoid e p = Some r \<Longrightarrow> consume (n + k) nanoid e p = Some r"
proof (induction k)
  case 0
  then show ?case by simp
next
  case (Suc k)
  then have "consume (n + k) nanoid e p = Some r" by simp
  then have "consume (Suc (n + k)) nanoid e p = Some r" using fuel_step by blast
  then show ?case by (simp only: add_Suc_right)
qed

lemma parse_more_fuel:
  assumes "parse n orc nanoid s = Some r"
  shows "parse (n + k) orc nanoid s = Some r"
proof -
  have "onRegexBody (n + k) nanoid p = Some x" if "onRegexBody n nanoid p = Some x" for p x
    using that unfolding onRegexBody_def by (rule consume_more_fuel)
  then have "onRegex (n + k) nanoid p = Some x" if "onRegex n nanoid p = Some x" for p x
    using that unfolding onRegex_def
    by (cases "onRegexBody n nanoid (p\<lparr>parent := Some RegexRef\<rparr>)") auto
  with assms show ?thesis
    by (auto simp: parse_def parserParse_def split: prod.splits bool.splits option.splits sum.splits)
qed

section \<open>Facts about validation\<close>

lemma findEnd_absent: "findEnd cs i = - 1 \<longleftrightarrow> CHR ''/'' \<notin> set cs"
  by (induction cs arbitrary: i) auto

lemma findEnd_present:
  "CHR ''/'' \<in> set cs \<Longrightarrow> findEnd cs i = int (i + length (takeWhile (\<lambda>c. c \<noteq> CHR ''/'') cs))"
  by (induction cs arbitrary: i) auto

lemma indexOf_zero: "indexOf t CHR ''/'' = 0 \<longleftrightarrow> (\<exists>cs. t = CHR ''/'' # cs)"
  by (cases t) (auto simp: indexOf_def)

lemma drop_after_end:
  assumes "CHR ''/'' \<in> set (drop 1 t)"
  shows "drop (nat (findEnd (drop 1 t) 1) + 1) t = flagLetters t"
proof -
  let ?k = "length (takeWhile (\<lambda>c. c \<noteq> CHR ''/'') (drop 1 t))"
  have "nat (findEnd (drop 1 t) 1) + 1 = 1 + (?k + 1)"
    using findEnd_present [OF assms, of 1] by simp
  then have "drop (nat (findEnd (drop 1 t) 1) + 1) t = drop 1 (drop ?k (drop 1 t))"
    by (simp add: add.commute)
  also have "drop ?k (drop 1 t) = dropWhile (\<lambda>c. c \<noteq> CHR ''/'') (drop 1 t)"
    by (simp add: dropWhile_eq_drop)
  finally show ?thesis by (simp add: flagLetters_def)
qed

lemma slice_body:
  assumes "CHR ''/'' \<in> set (drop 1 t)"
  shows "slice t 1 (nat (findEnd (drop 1 t) 1)) = bodyText t"
proof -
  let ?k = "length (takeWhile (\<lambda>c. c \<noteq> CHR ''/'') (drop 1 t))"
  have "nat (findEnd (drop 1 t) 1) - 1 = ?k"
    using findEnd_present [OF assms, of 1] by simp
  then have "slice t 1 (nat (findEnd (drop 1 t) 1)) = take ?k (drop 1 t)"
    by (simp add: slice_def)
  also have "\<dots> = takeWhile (\<lambda>c. c \<noteq> CHR ''/'') (drop 1 t)"
    by (rule takeWhile_eq_take [symmetric])
  finally show ?thesis by (simp add: bodyText_def)
qed


lemma flagLoop_failure:
  "flagLoop cs fs = (False, fs') \<Longrightarrow> \<not> set cs \<subseteq> set ''gimsuy''"
  by (induction cs fs rule: flagLoop.induct) (auto split: if_splits)




lemma validate_unfold:
  "validate orc p =
     (if missingDelimiter (regex p) then (False, p\<lparr>message := ''Invalid regular expression''\<rparr>)
      else
        (case flagLoop (flagLetters (regex p)) (flagSet p) of
           (ok, fs) \<Rightarrow>
             if \<not> ok then
               (False, p\<lparr>flagSet := fs, message := ''Invalid regular expression flags''\<rparr>)
             else
               (case orc (bodyText (regex p)) (flagLetters (regex p)) of
                  Some msg \<Rightarrow> (False, p\<lparr>flagSet := fs, message := msg\<rparr>)
                | None \<Rightarrow> (True, p\<lparr>flagSet := fs\<rparr>))))"
proof (cases "indexOf (regex p) CHR ''/'' = 0")
  case False
  then have "missingDelimiter (regex p)"
    by (auto simp: indexOf_zero missingDelimiter_def split: list.splits)
  with False show ?thesis by (simp add: validate_def)
next
  case start: True
  then obtain cs where t: "regex p = CHR ''/'' # cs" by (auto simp: indexOf_zero)
  show ?thesis
  proof (cases "CHR ''/'' \<in> set cs")
    case False
    then have "missingDelimiter (regex p)" by (simp add: missingDelimiter_def t)
    moreover from False have "findEnd (drop 1 (regex p)) 1 = - 1" by (simp add: findEnd_absent t)
    ultimately show ?thesis using start by (simp add: validate_def)
  next
    case True
    then have nm: "\<not> missingDelimiter (regex p)" by (simp add: missingDelimiter_def t)
    from True have pres: "CHR ''/'' \<in> set (drop 1 (regex p))" by (simp add: t)
    then have ne: "findEnd (drop 1 (regex p)) 1 \<noteq> - 1" by (simp add: findEnd_absent)
    show ?thesis
      unfolding validate_def Let_def sliceFrom_def drop_after_end [OF pres] slice_body [OF pres]
      using start ne nm by (simp split: prod.splits option.splits)
  qed
qed

lemma validate_fields:
  assumes "validate orc p = (ok, p1)"
  shows "heap p1 = heap p \<and> groupIndex p1 = groupIndex p \<and> ast p1 = ast p \<and> regex p1 = regex p"
  using assms
  by (auto simp: validate_unfold split: if_splits prod.splits option.splits)


lemma validate_message:
  assumes "validate orc p = (False, p1)"
  shows "(missingDelimiter (regex p) \<and> message p1 = ''Invalid regular expression'') \<or>
         (\<not> missingDelimiter (regex p) \<and> \<not> set (flagLetters (regex p)) \<subseteq> set ''gimsuy''
            \<and> message p1 = ''Invalid regular expression flags'') \<or>
         (\<not> missingDelimiter (regex p) \<and> (\<exists>b f. orc b f = Some (message p1)))"
proof (cases "missingDelimiter (regex p)")
  case True
  with assms show ?thesis by (auto simp: validate_unfold)
next
  case nm: False
  obtain ok fs where fl: "flagLoop (flagLetters (regex p)) (flagSet p) = (ok, fs)"
    by (cases "flagLoop (flagLetters (regex p)) (flagSet p)")
  show ?thesis
  proof (cases ok)
    case False
    with fl have "flagLoop (flagLetters (regex p)) (flagSet p) = (False, fs)" by simp
    then have "\<not> set (flagLetters (regex p)) \<subseteq> set ''gimsuy''"
      by (rule flagLoop_failure)
    moreover from False fl assms nm
    have "message p1 = ''Invalid regular expression flags''"
      by (auto simp: validate_unfold)
    ultimately show ?thesis using nm by blast
  next
    case True
    with fl assms nm have "\<exists>b f. orc b f = Some (message p1)"
      by (fastforce simp: validate_unfold split: option.splits)
    then show ?thesis using nm by blast
  qed
qed

lemma validate_missingDelimiter:
  assumes "missingDelimiter (regex p)"
  shows "\<exists>p1. validate orc p = (False, p1) \<and> message p1 = ''Invalid regular expression''"
  using assms by (simp add: validate_unfold)

lemma parse_accepted:
  assumes "orc (bodyText (trim s)) (flagLetters (trim s)) = None"
  shows "parse fuel orc nanoid s = parse fuel (\<lambda>_ _. None) nanoid s"
proof -
  have "validate orc (Parser s) = validate (\<lambda>_ _. None) (Parser s)"
    using assms by (simp add: validate_unfold Parser_def split: prod.splits)
  then show ?thesis by (simp add: parse_def parserParse_def)
qed

lemma onFlags_fields:
  "heap (onFlags p) = heap p \<and> groupIndex (onFlags p) = groupIndex p \<and>
   body (ast (onFlags p)) = body (ast p) \<and>
   flags (ast (onFlags p)) = flags (ast p) @ map (\<lambda>c. Flag (flagDict c)) (flagSet p)"
proof -
  have "heap (foldl (\<lambda>q f. q\<lparr>ast := (ast q)\<lparr>flags := flags (ast q) @ [Flag (flagDict f)]\<rparr>\<rparr>) p fs) = heap p \<and>
        groupIndex (foldl (\<lambda>q f. q\<lparr>ast := (ast q)\<lparr>flags := flags (ast q) @ [Flag (flagDict f)]\<rparr>\<rparr>) p fs) = groupIndex p \<and>
        body (ast (foldl (\<lambda>q f. q\<lparr>ast := (ast q)\<lparr>flags := flags (ast q) @ [Flag (flagDict f)]\<rparr>\<rparr>) p fs)) = body (ast p) \<and>
        flags (ast (foldl (\<lambda>q f. q\<lparr>ast := (ast q)\<lparr>flags := flags (ast q) @ [Flag (flagDict f)]\<rparr>\<rparr>) p fs)) =
          flags (ast p) @ map (\<lambda>c. Flag (flagDict c)) fs" for fs
    by (induction fs arbitrary: p) simp_all
  then show ?thesis
    unfolding onFlags_def
    by (metis (no_types, lifting) foldl_cong)
qed

section \<open>The driver terminates\<close>





















section \<open>The shape of a successful run\<close>

lemma keeps_parent: "keeps p (p\<lparr>parent := x\<rparr>)"
  by (simp add: keeps_def numbered_def)

lemma parse_Regex_run:
  assumes "parse fuel orc nanoid s = Some (Inr (Regex r h))"
  obtains p1 p3 where "validate orc (Parser s) = (True, p1)" and "keeps p1 p3"
    and "h = heap p3" and "r = ast (onFlags p3)"
proof -
  from assms obtain p1 p2 where v: "validate orc (Parser s) = (True, p1)"
    and o: "onRegex fuel nanoid p1 = Some (Inr p2)" and r: "r = ast p2" and h: "h = heap p2"
    by (auto simp: parse_def parserParse_def split: prod.splits bool.splits option.splits sum.splits)
  from o obtain p3 where
    c: "consume fuel nanoid CHR ''/'' (snd (advance 1 (p1\<lparr>parent := Some RegexRef\<rparr>))) = Some (Inr p3)"
    and p2: "p2 = onFlags p3"
    by (auto simp: onRegex_def onRegexBody_def split: option.splits sum.splits)
  have "keeps (snd (advance 1 (p1\<lparr>parent := Some RegexRef\<rparr>))) p3"
    using c keeps_consume_onGroup by blast
  then have "keeps p1 p3"
    using keeps_parent keeps_advance keeps_trans by blast
  moreover have "h = heap p3" by (simp add: h p2 onFlags_fields)
  ultimately show thesis using v r p2 that by blast
qed

text \<open>The counter is consecutive: in a returned pattern the names of the capturing
  nodes, in the order of their creation, are the numerals from 1 on.\<close>

lemma capturing_names_consecutive:
  assumes "parse fuel orc nanoid s = Some (Inr (Regex r h))"
  shows "capturingNames h = map showNat [1 ..< Suc (length (capturingNames h))]"
proof -
  from assms obtain p1 p3 where v: "validate orc (Parser s) = (True, p1)"
    and k: "keeps p1 p3" and h: "h = heap p3"
    by (rule parse_Regex_run)
  have "numbered (Parser s)"
    by (simp add: numbered_def Parser_def capturingNames_def)
  with validate_fields [OF v] have "numbered p1" by (simp add: numbered_def)
  with k have n: "numbered p3" by (simp add: keeps_def)
  then have "length (capturingNames h) = groupIndex p3 - 1" by (simp add: numbered_def h)
  with n have "Suc (length (capturingNames h)) = groupIndex p3" by (simp add: numbered_def)
  with n show ?thesis by (simp add: numbered_def h)
qed

section \<open>Facts about flags and trimming\<close>

text \<open>Below \<open>2 ^ 53\<close> \<open>toNumber\<close> changes nothing; the first integer that is not a
  double is rounded to its even neighbour.\<close>

lemma toNumber_exact: "n < 2 ^ 53 \<Longrightarrow> toNumber n = Finite n"
  by (simp add: toNumber_def)

lemma parseInt_rounds: "parseInt ''9007199254740993'' = Finite 9007199254740992"
  by code_simp





lemma trim_padded:
  assumes l: "\<forall>c \<in> set l. isWhiteSpace c" and r: "\<forall>c \<in> set r. isWhiteSpace c"
  shows "trim (l @ s @ r) = trim s"
proof -
  have a: "dropWhile isWhiteSpace (l @ s @ r) = dropWhile isWhiteSpace (s @ r)"
    using l by (simp add: dropWhile_append2)
  show ?thesis
  proof (cases "\<forall>c \<in> set s. isWhiteSpace c")
    case True
    with l r have x: "dropWhile isWhiteSpace (l @ s @ r) = []"
      by (auto simp: dropWhile_eq_Nil_conv)
    from True have y: "dropWhile isWhiteSpace s = []"
      by (simp add: dropWhile_eq_Nil_conv)
    show ?thesis unfolding trim_def x y by simp
  next
    case False
    then obtain c where "c \<in> set s" and "\<not> isWhiteSpace c" by blast
    then have "dropWhile isWhiteSpace (s @ r) = dropWhile isWhiteSpace s @ r"
      by (rule dropWhile_append1)
    moreover have "dropWhile isWhiteSpace (rev r @ xs) = dropWhile isWhiteSpace xs" for xs
      by (rule dropWhile_append2) (use r in auto)
    ultimately show ?thesis unfolding trim_def a by simp
  qed
qed




section \<open>Claims\<close>

text \<open>
  C1.  The spec's example: \<^verbatim>\<open>/ab+/gi\<close> is to parse into the body
  \<open>[Character a, Character b\<close> with quantifier \<open>+]\<close> and the flags
  \<open>[global, ignoreCase]\<close>.  The code does not get there.  \<^verbatim>\<open>consume\<close> passes over
  \<^verbatim>\<open>a\<close> and \<^verbatim>\<open>b\<close> without creating a node, so \<^verbatim>\<open>this.prev\<close> is still
  \<^verbatim>\<open>undefined\<close> when \<^verbatim>\<open>+\<close> is read, and \<^verbatim>\<open>consumeQuantifier\<close> throws on
  \<^verbatim>\<open>this.prev.type\<close>: for every engine that accepts the pattern and every amount of
  fuel from 3 on, the call ends in a \<^verbatim>\<open>TypeError\<close> and returns no pattern.
\<close>

theorem literal_ab_plus_raises:
  assumes "orc ''ab+'' ''gi'' = None"
  shows "parse (3 + k) orc nanoid ''/ab+/gi'' =
    Some (Inl TypeError)"
proof -
  have b: "bodyText (trim ''/ab+/gi'') = ''ab+''"
    by code_simp
  have f: "flagLetters (trim ''/ab+/gi'') = ''gi''"
    by code_simp
  have "parse 3 (\<lambda>b f. None) nanoid ''/ab+/gi'' =
    Some (Inl TypeError)"
    by code_simp
  then have "parse (3 + k) (\<lambda>b f. None) nanoid ''/ab+/gi'' =
    Some (Inl TypeError)"
    by (rule parse_more_fuel)
  moreover have "parse (3 + k) orc nanoid ''/ab+/gi'' =
      parse (3 + k) (\<lambda>b f. None) nanoid ''/ab+/gi''"
    by (rule parse_accepted) (simp only: b f assms)
  ultimately show ?thesis by simp
qed

theorem literal_ab_plus_raises_witness:
  "parse 3 (\<lambda>b f. None) showNat ''/ab+/gi'' =
    Some (Inl TypeError)"
  using literal_ab_plus_raises [of "\<lambda>b f. None" 0 showNat] by simp

text \<open>
  C2.  A group is to become the parent of what stands between its parentheses, so that
  a group opened inside another one is a child of the enclosing group.  In the code
  \<^verbatim>\<open>this.parent\<close> is assigned once, in \<^verbatim>\<open>onRegex\<close>, and \<^verbatim>\<open>onGroup\<close> never changes
  it: on \<^verbatim>\<open>/(a(b))/\<close> both groups are appended to the body of the root, the inner one
  after the outer one, and the child list of the outer group stays empty.
\<close>

theorem nested_group_appended_to_root:
  assumes "orc ''(a(b))'' [] = None"
  shows "parse (8 + k) orc nanoid ''/(a(b))/'' =
    Some (Inr (Regex \<lparr>body = [0, 1], flags = []\<rparr>
      [GroupNode (nanoid 0) [] (Capturing ''1'') None,
       GroupNode (nanoid 1) [] (Capturing ''2'') None]))"
proof -
  have b: "bodyText (trim ''/(a(b))/'') = ''(a(b))''"
    by code_simp
  have f: "flagLetters (trim ''/(a(b))/'') = []"
    by code_simp
  have "parse 8 (\<lambda>b f. None) nanoid ''/(a(b))/'' =
    Some (Inr (Regex \<lparr>body = [0, 1], flags = []\<rparr>
      [GroupNode (nanoid 0) [] (Capturing ''1'') None,
       GroupNode (nanoid 1) [] (Capturing ''2'') None]))"
    by code_simp
  then have "parse (8 + k) (\<lambda>b f. None) nanoid ''/(a(b))/'' =
    Some (Inr (Regex \<lparr>body = [0, 1], flags = []\<rparr>
      [GroupNode (nanoid 0) [] (Capturing ''1'') None,
       GroupNode (nanoid 1) [] (Capturing ''2'') None]))"
    by (rule parse_more_fuel)
  moreover have "parse (8 + k) orc nanoid ''/(a(b))/'' =
      parse (8 + k) (\<lambda>b f. None) nanoid ''/(a(b))/''"
    by (rule parse_accepted) (simp only: b f assms)
  ultimately show ?thesis by simp
qed

theorem nested_group_appended_to_root_witness:
  "parse 8 (\<lambda>b f. None) showNat ''/(a(b))/'' =
    Some (Inr (Regex \<lparr>body = [0, 1], flags = []\<rparr>
      [GroupNode (showNat 0) [] (Capturing ''1'') None,
       GroupNode (showNat 1) [] (Capturing ''2'') None]))"
  using nested_group_appended_to_root [of "\<lambda>b f. None" 0 showNat] by simp

text \<open>
  C3.  The quantifier \<^verbatim>\<open>{2,5}\<close> is to be read as \<open>custom, min 2, max 5, greedy\<close>.  In
  the third branch of the \<^verbatim>\<open>{\<close> case the code reads the second digit run at offset 1
  again (so it reads \<open>min\<close> a second time) and tests the character after \<open>min\<close>, which
  the first branch has already found not to be \<^verbatim>\<open>}\<close>; the branch never produces a
  quantifier.  On \<^verbatim>\<open>/(a){2,5}/\<close> the group therefore keeps its quantifier \<open>None\<close>.
\<close>

theorem bounded_quantifier_not_attached:
  assumes "orc ''(a){2,5}'' [] = None"
  shows "parse (10 + k) orc nanoid ''/(a){2,5}/'' =
    Some (Inr (Regex \<lparr>body = [0], flags = []\<rparr>
      [GroupNode (nanoid 0) [] (Capturing ''1'') None]))"
proof -
  have b: "bodyText (trim ''/(a){2,5}/'') = ''(a){2,5}''"
    by code_simp
  have f: "flagLetters (trim ''/(a){2,5}/'') = []"
    by code_simp
  have "parse 10 (\<lambda>b f. None) nanoid ''/(a){2,5}/'' =
    Some (Inr (Regex \<lparr>body = [0], flags = []\<rparr>
      [GroupNode (nanoid 0) [] (Capturing ''1'') None]))"
    by code_simp
  then have "parse (10 + k) (\<lambda>b f. None) nanoid ''/(a){2,5}/'' =
    Some (Inr (Regex \<lparr>body = [0], flags = []\<rparr>
      [GroupNode (nanoid 0) [] (Capturing ''1'') None]))"
    by (rule parse_more_fuel)
  moreover have "parse (10 + k) orc nanoid ''/(a){2,5}/'' =
      parse (10 + k) (\<lambda>b f. None) nanoid ''/(a){2,5}/''"
    by (rule parse_accepted) (simp only: b f assms)
  ultimately show ?thesis by simp
qed

theorem bounded_quantifier_not_attached_witness:
  "parse 10 (\<lambda>b f. None) showNat ''/(a){2,5}/'' =
    Some (Inr (Regex \<lparr>body = [0], flags = []\<rparr>
      [GroupNode (showNat 0) [] (Capturing ''1'') None]))"
  using bounded_quantifier_not_attached [of "\<lambda>b f. None" 0 showNat] by simp

text \<open>
  C4.  After validation the body parse is to raise no error, and a quantifier with no
  preceding sibling is to be dropped silently.  The code reads \<^verbatim>\<open>this.prev.type\<close>
  without testing \<^verbatim>\<open>this.prev\<close>, which is only assigned when a group closes: on
  \<^verbatim>\<open>/a+/\<close>, a literal that every engine accepts, the parse ends in a \<^verbatim>\<open>TypeError\<close>.
\<close>

theorem quantifier_without_prev_raises:
  assumes "orc ''a+'' [] = None"
  shows "parse (2 + k) orc nanoid ''/a+/'' =
    Some (Inl TypeError)"
proof -
  have b: "bodyText (trim ''/a+/'') = ''a+''"
    by code_simp
  have f: "flagLetters (trim ''/a+/'') = []"
    by code_simp
  have "parse 2 (\<lambda>b f. None) nanoid ''/a+/'' =
    Some (Inl TypeError)"
    by code_simp
  then have "parse (2 + k) (\<lambda>b f. None) nanoid ''/a+/'' =
    Some (Inl TypeError)"
    by (rule parse_more_fuel)
  moreover have "parse (2 + k) orc nanoid ''/a+/'' =
      parse (2 + k) (\<lambda>b f. None) nanoid ''/a+/''"
    by (rule parse_accepted) (simp only: b f assms)
  ultimately show ?thesis by simp
qed

theorem quantifier_without_prev_raises_witness:
  "parse 2 (\<lambda>b f. None) showNat ''/a+/'' =
    Some (Inl TypeError)"
  using quantifier_without_prev_raises [of "\<lambda>b f. None" 0 showNat] by simp

text \<open>
  C5.  The flag table has the seven letters \<^verbatim>\<open>d g i m s u y\<close>, and each of them is to
  pass the flag check.  The check tests against \<^verbatim>\<open>/[gimsuy]/\<close>, which lacks
  \<^verbatim>\<open>d\<close>: \<^verbatim>\<open>/a/d\<close> is rejected with the message for an unknown flag, before the
  engine is asked and whatever it would answer.
\<close>

theorem flag_d_rejected:
  "parse fuel orc nanoid ''/a/d'' = Some (Inr (RegexError ''Invalid regular expression flags''))"
proof -
  have t: "trim ''/a/d'' = ''/a/d''" by code_simp
  have m: "\<not> missingDelimiter ''/a/d''" by code_simp
  have l: "flagLoop (flagLetters ''/a/d'') [] = (False, [])" by code_simp
  have "validate orc (Parser ''/a/d'') =
    (False, (Parser ''/a/d'')\<lparr>flagSet := [], message := ''Invalid regular expression flags''\<rparr>)"
    unfolding validate_unfold by (simp add: Parser_def t m l)
  then show ?thesis by (simp add: parse_def parserParse_def)
qed

text \<open>
  C6.  The name of a named group is to be the text between \<^verbatim>\<open><\<close> and the matching
  \<^verbatim>\<open>>\<close>.  The lookahead is \<^verbatim>\<open>^\?<(.*)>\<close>, whose greedy \<^verbatim>\<open>.*\<close> runs to the last
  \<^verbatim>\<open>>\<close> of the line: on the spec's own example \<^verbatim>\<open>/(?<a>x)(?<b>y)/\<close> the first group
  gets the name \<^verbatim>\<open>a>x)(?<b\<close>, the cursor jumps behind the second \<^verbatim>\<open>>\<close>, and the
  second group is never created.
\<close>

theorem named_group_name_runs_to_last_gt:
  assumes "orc ''(?<a>x)(?<b>y)'' [] = None"
  shows "parse (5 + k) orc nanoid ''/(?<a>x)(?<b>y)/'' =
    Some (Inr (Regex \<lparr>body = [0], flags = []\<rparr>
      [GroupNode (nanoid 0) [] (NamedCapturing ''a>x)(?<b'') None]))"
proof -
  have b: "bodyText (trim ''/(?<a>x)(?<b>y)/'') = ''(?<a>x)(?<b>y)''"
    by code_simp
  have f: "flagLetters (trim ''/(?<a>x)(?<b>y)/'') = []"
    by code_simp
  have "parse 5 (\<lambda>b f. None) nanoid ''/(?<a>x)(?<b>y)/'' =
    Some (Inr (Regex \<lparr>body = [0], flags = []\<rparr>
      [GroupNode (nanoid 0) [] (NamedCapturing ''a>x)(?<b'') None]))"
    by code_simp
  then have "parse (5 + k) (\<lambda>b f. None) nanoid ''/(?<a>x)(?<b>y)/'' =
    Some (Inr (Regex \<lparr>body = [0], flags = []\<rparr>
      [GroupNode (nanoid 0) [] (NamedCapturing ''a>x)(?<b'') None]))"
    by (rule parse_more_fuel)
  moreover have "parse (5 + k) orc nanoid ''/(?<a>x)(?<b>y)/'' =
      parse (5 + k) (\<lambda>b f. None) nanoid ''/(?<a>x)(?<b>y)/''"
    by (rule parse_accepted) (simp only: b f assms)
  ultimately show ?thesis by simp
qed

theorem named_group_name_runs_to_last_gt_witness:
  "parse 5 (\<lambda>b f. None) showNat ''/(?<a>x)(?<b>y)/'' =
    Some (Inr (Regex \<lparr>body = [0], flags = []\<rparr>
      [GroupNode (showNat 0) [] (NamedCapturing ''a>x)(?<b'') None]))"
  using named_group_name_runs_to_last_gt [of "\<lambda>b f. None" 0 showNat] by simp

text \<open>
  C7.  Capturing groups are to be numbered 1, 2, 3, \<dots> in the order of their opening
  parentheses, one number for each capturing group.  The counter starts at 1 and only
  the capturing branch of \<^verbatim>\<open>onGroup\<close> increments it, but the parser does not open every
  group: \<^verbatim>\<open>consumeQuantifier\<close> moves the cursor behind the quantifier and the loop of
  \<^verbatim>\<open>consume\<close> then advances once more, so the character that follows a quantifier is
  never looked at.  On \<^verbatim>\<open>/(a)+(b)(c)/\<close> the group \<^verbatim>\<open>(b)\<close> gets no node and
  \<^verbatim>\<open>(c)\<close> gets the number 2, where the engine counts it as the third group.
\<close>

theorem group_after_quantifier_skipped:
  assumes "orc ''(a)+(b)(c)'' [] = None"
  shows "parse (9 + k) orc nanoid ''/(a)+(b)(c)/'' =
    Some (Inr (Regex \<lparr>body = [0, 1], flags = []\<rparr>
      [GroupNode (nanoid 0) [] (Capturing ''1'')
         (Some \<lparr>kind = Plus, qmin = Finite 1, qmax = Infinity, greedy = True\<rparr>),
       GroupNode (nanoid 1) [] (Capturing ''2'') None]))"
proof -
  have b: "bodyText (trim ''/(a)+(b)(c)/'') = ''(a)+(b)(c)''"
    by code_simp
  have f: "flagLetters (trim ''/(a)+(b)(c)/'') = []"
    by code_simp
  have "parse 9 (\<lambda>b f. None) nanoid ''/(a)+(b)(c)/'' =
    Some (Inr (Regex \<lparr>body = [0, 1], flags = []\<rparr>
      [GroupNode (nanoid 0) [] (Capturing ''1'')
         (Some \<lparr>kind = Plus, qmin = Finite 1, qmax = Infinity, greedy = True\<rparr>),
       GroupNode (nanoid 1) [] (Capturing ''2'') None]))"
    by code_simp
  then have "parse (9 + k) (\<lambda>b f. None) nanoid ''/(a)+(b)(c)/'' =
    Some (Inr (Regex \<lparr>body = [0, 1], flags = []\<rparr>
      [GroupNode (nanoid 0) [] (Capturing ''1'')
         (Some \<lparr>kind = Plus, qmin = Finite 1, qmax = Infinity, greedy = True\<rparr>),
       GroupNode (nanoid 1) [] (Capturing ''2'') None]))"
    by (rule parse_more_fuel)
  moreover have "parse (9 + k) orc nanoid ''/(a)+(b)(c)/'' =
      parse (9 + k) (\<lambda>b f. None) nanoid ''/(a)+(b)(c)/''"
    by (rule parse_accepted) (simp only: b f assms)
  ultimately show ?thesis by simp
qed

theorem group_after_quantifier_skipped_witness:
  "parse 9 (\<lambda>b f. None) showNat ''/(a)+(b)(c)/'' =
    Some (Inr (Regex \<lparr>body = [0, 1], flags = []\<rparr>
      [GroupNode (showNat 0) [] (Capturing ''1'')
         (Some \<lparr>kind = Plus, qmin = Finite 1, qmax = Infinity, greedy = True\<rparr>),
       GroupNode (showNat 1) [] (Capturing ''2'') None]))"
  using group_after_quantifier_skipped [of "\<lambda>b f. None" 0 showNat] by simp




text \<open>
  C9.  The constructor trims the input, and the conditions on the delimiters are tested
  on the trimmed text.  If that text does not begin with \<^verbatim>\<open>/\<close>, or has no second
  \<^verbatim>\<open>/\<close> after the first character, \<open>parse\<close> returns the error whose message is
  exactly \<^verbatim>\<open>Invalid regular expression\<close>.  Every error that \<open>parse\<close> returns carries
  one of three messages: that one, \<^verbatim>\<open>Invalid regular expression flags\<close>, or the
  message with which the engine rejected the body and the flags.  An error is a value
  of its own, a message and nothing else: \<^const>\<open>RegexError\<close> has no field for a tree.
  Of the input as it is given the first statement is false: \<^verbatim>\<open> /a/\<close> does not begin
  with \<^verbatim>\<open>/\<close> and yet parses.  A failure after validation is an exception and no
  returned error; the statement does not cover it (\<^verbatim>\<open>/a+/\<close> is one).
\<close>

theorem delimiter_errors:
  "(missingDelimiter (trim s) \<longrightarrow>
      parse fuel orc nanoid s = Some (Inr (RegexError ''Invalid regular expression'')))
   \<and> (\<forall>m. parse fuel orc nanoid s = Some (Inr (RegexError m)) \<longrightarrow>
        m = ''Invalid regular expression'' \<or> m = ''Invalid regular expression flags''
        \<or> orc (bodyText (trim s)) (flagLetters (trim s)) = Some m)"
proof (intro conjI impI allI)
  assume "missingDelimiter (trim s)"
  then have "missingDelimiter (regex (Parser s))" by (simp add: Parser_def)
  from validate_missingDelimiter [OF this, of orc]
  show "parse fuel orc nanoid s = Some (Inr (RegexError ''Invalid regular expression''))"
    by (auto simp: parse_def parserParse_def)
next
  fix m
  assume a: "parse fuel orc nanoid s = Some (Inr (RegexError m))"
  then obtain p1 where v: "validate orc (Parser s) = (False, p1)" and m: "m = message p1"
    by (auto simp: parse_def parserParse_def split: prod.splits bool.splits option.splits sum.splits)
  have t: "regex (Parser s) = trim s" by (simp add: Parser_def)
  from v m show "m = ''Invalid regular expression'' \<or> m = ''Invalid regular expression flags''
        \<or> orc (bodyText (trim s)) (flagLetters (trim s)) = Some m"
    unfolding validate_unfold t
    by (auto split: if_splits prod.splits option.splits)
qed

theorem delimiter_errors_witness:
  "missingDelimiter (trim ''ab/'')
   \<and> parse 0 (\<lambda>b f. None) showNat ''ab/'' = Some (Inr (RegexError ''Invalid regular expression''))
   \<and> missingDelimiter (trim ''/ab'')
   \<and> parse 0 (\<lambda>b f. None) showNat ''/ab'' = Some (Inr (RegexError ''Invalid regular expression''))
   \<and> parse 0 (\<lambda>b f. None) showNat ''/x/z'' = Some (Inr (RegexError ''Invalid regular expression flags''))"
proof -
  have m1: "missingDelimiter (trim ''ab/'')" by code_simp
  have m2: "missingDelimiter (trim ''/ab'')" by code_simp
  have e3: "parse 0 (\<lambda>b f. None) showNat ''/x/z'' = Some (Inr (RegexError ''Invalid regular expression flags''))"
    by code_simp
  show ?thesis
    using delimiter_errors [of "''ab/''" 0 "\<lambda>b f. None" showNat]
      delimiter_errors [of "''/ab''" 0 "\<lambda>b f. None" showNat]
      delimiter_errors [of "''/x/z''" 0 "\<lambda>b f. None" showNat] m1 m2 e3
    by simp
qed

theorem delimiter_errors_counterexample:
  "missingDelimiter '' /a/''
   \<and> parse 2 (\<lambda>b f. None) showNat '' /a/'' = Some (Inr (Regex \<lparr>body = [], flags = []\<rparr> []))
   \<and> parse 2 (\<lambda>b f. None) showNat ''/a+/'' = Some (Inl TypeError)"
  by code_simp

text \<open>
  C10.  The constructor trims its argument before anything else is done, so white space
  added in front of the input or behind it changes nothing: with the same engine and the
  same id generator the two calls give the same result, for every amount of fuel, be it
  an error, an exception or a pattern.
\<close>

theorem parse_trims_input:
  assumes "\<forall>c \<in> set l. isWhiteSpace c" and "\<forall>c \<in> set r. isWhiteSpace c"
  shows "parse fuel orc nanoid (l @ s @ r) = parse fuel orc nanoid s"
  using trim_padded [OF assms] by (simp add: parse_def Parser_def)

theorem parse_trims_input_witness:
  "isWhiteSpace CHR '' '' \<and> isWhiteSpace CHR 0x09 \<and> isWhiteSpace CHR 0x0A
   \<and> parse 5 (\<lambda>b f. None) showNat ([CHR '' '', CHR 0x09] @ ''/(a)/g'' @ [CHR 0x0A, CHR '' '']) =
       parse 5 (\<lambda>b f. None) showNat ''/(a)/g''
   \<and> parse 5 (\<lambda>b f. None) showNat ''/(a)/g'' =
       Some (Inr (Regex \<lparr>body = [0], flags = [Flag (Some global)]\<rparr>
         [GroupNode ''0'' [] (Capturing ''1'') None]))"
proof -
  have w: "\<forall>c \<in> set [CHR '' '', CHR 0x09]. isWhiteSpace c" "\<forall>c \<in> set [CHR 0x0A, CHR '' '']. isWhiteSpace c"
    by (simp_all add: isWhiteSpace_def)
  have e: "parse 5 (\<lambda>b f. None) showNat ''/(a)/g'' =
       Some (Inr (Regex \<lparr>body = [0], flags = [Flag (Some global)]\<rparr>
         [GroupNode ''0'' [] (Capturing ''1'') None]))"
    by code_simp
  show ?thesis
    using parse_trims_input [OF w, of 5 "\<lambda>b f. None" showNat "''/(a)/g''"] e w
    by simp
qed

end
